theory Spec2Isabelle
  imports Main
begin

section \<open>Homework1/preprocess.py: character-to-token alignment and sample assembly\<close>

text \<open>
  The embedding follows \<^verbatim>\<open>src/Homework1/preprocess.py\<close>. Python integers are
  \<open>int\<close>, Python lists are HOL lists, a key that a dictionary may lack is an
  \<open>option\<close> field, and every exception the code can raise on a well-typed record
  is a value of \<open>py_error\<close>. A Python \<open>str\<close> is a \<open>string\<close>; each \<open>char\<close>
  stands for one code point, and nothing in the code looks at the characters
  themselves.
\<close>

subsection \<open>Python primitives\<close>

datatype py_error = KeyError | IndexError

text \<open>
  Normalisation of one slice bound against a sequence of length \<open>n\<close>: a negative
  bound counts from the end, and the result is clipped to \<open>0..n\<close>.
\<close>

definition slice_bound :: "nat \<Rightarrow> int \<Rightarrow> nat" where
  "slice_bound n i =
     (if i < 0 then nat (max (i + int n) 0) else min (nat i) n)"

text \<open>\<^verbatim>\<open>xs[s:e]\<close>: never raises; empty when the lower bound is not below the upper.\<close>

definition py_slice :: "'a list \<Rightarrow> int \<Rightarrow> int \<Rightarrow> 'a list" where
  "py_slice xs s e =
     (let lo = slice_bound (length xs) s; hi = slice_bound (length xs) e
      in take (hi - lo) (drop lo xs))"

text \<open>\<^verbatim>\<open>xs[i]\<close>: a negative index counts from the end; out of range raises IndexError.\<close>

definition py_index :: "'a list \<Rightarrow> int \<Rightarrow> py_error + 'a" where
  "py_index xs i =
     (let n = int (length xs) in
      if 0 \<le> i \<and> i < n then Inr (xs ! nat i)
      else if - n \<le> i \<and> i < 0 then Inr (xs ! nat (i + n))
      else Inl IndexError)"

subsection \<open>Data model\<close>

text \<open>
  The tokenizer is imported from \<^verbatim>\<open>utils\<close> and is a parameter of every function
  here: \<open>tokenize\<close> gives the sub-tokens of a string, \<open>encode\<close> its token ids, and
  the three reserved indices are attributes.
\<close>

record tokenizer =
  tokenize :: "string \<Rightarrow> string list"
  encode :: "string \<Rightarrow> int list"
  pad_token_idx :: int
  bos_token_idx :: int
  eos_token_idx :: int

text \<open>
  One line of the JSON-lines input. \<open>id\<close> and \<open>text\<close> are required; the other keys
  may be missing (\<open>None\<close>).
\<close>

record sample =
  s_id :: string
  s_text :: string
  sent_bounds :: "(int \<times> int) list option"
  extractive_summary :: "int option"
  summary :: "string option"

text \<open>The dictionary built by \<^verbatim>\<open>process_seq_tag_samples\<close>; \<open>label\<close> may be missing.\<close>

record seq_tag_processed =
  tag_id :: string
  tag_text :: "int list"
  tag_sent_range :: "(int \<times> int) list"
  tag_label :: "int list option"

text \<open>The dictionary built by \<^verbatim>\<open>process_seq2seq_samples\<close>; \<open>summary\<close> may be missing.\<close>

record seq2seq_processed =
  s2s_id :: string
  s2s_text :: "int list"
  s2s_summary :: "int list option"

subsection \<open>Alignment: \<^verbatim>\<open>get_tokens_range\<close>\<close>

text \<open>
  The loop of lines 105--110, with its two variables \<open>ranges\<close> and \<open>token_start\<close>
  as arguments.
\<close>

fun tokens_range_loop ::
  "tokenizer \<Rightarrow> string \<Rightarrow> (int \<times> int) list \<Rightarrow> (int \<times> int) list \<Rightarrow> int \<Rightarrow> (int \<times> int) list"
where
  "tokens_range_loop T txt [] ranges token_start = ranges"
| "tokens_range_loop T txt ((char_start, char_end) # bs) ranges token_start =
     (let sent = py_slice txt char_start char_end;
          tokens_in_sent = tokenize T sent;
          token_end = token_start + int (length tokens_in_sent)
      in tokens_range_loop T txt bs (ranges @ [(token_start, token_end)]) token_end)"

definition get_tokens_range :: "tokenizer \<Rightarrow> sample \<Rightarrow> py_error + (int \<times> int) list" where
  "get_tokens_range T smp =
     (case sent_bounds smp of
        None \<Rightarrow> Inl KeyError
      | Some bs \<Rightarrow> Inr (tokens_range_loop T (s_text smp) bs [] 0))"

text \<open>
  The alignment as the specification words it: a running offset, and for each
  character span the pair \<open>(offset, offset + k)\<close> with \<open>k\<close> the token count of the
  span's substring tokenized on its own.
\<close>

definition span_tokens :: "tokenizer \<Rightarrow> string \<Rightarrow> int \<times> int \<Rightarrow> nat" where
  "span_tokens T txt b = length (tokenize T (py_slice txt (fst b) (snd b)))"

fun align_from :: "tokenizer \<Rightarrow> string \<Rightarrow> int \<Rightarrow> (int \<times> int) list \<Rightarrow> (int \<times> int) list" where
  "align_from T txt offset [] = []"
| "align_from T txt offset (b # bs) =
     (offset, offset + int (span_tokens T txt b))
       # align_from T txt (offset + int (span_tokens T txt b)) bs"

subsection \<open>Sequence tagging: \<^verbatim>\<open>process_seq_tag_samples\<close>\<close>

text \<open>
  The body of the loop of lines 80--97 for one sample: \<open>Inr None\<close> is the
  \<^verbatim>\<open>continue\<close> of line 81, \<open>Inr (Some p)\<close> the dictionary appended at line 97,
  \<open>Inl e\<close> an exception, which leaves the function.
\<close>

definition make_label :: "int \<Rightarrow> int \<Rightarrow> nat \<Rightarrow> int list" where
  "make_label label_start label_end n =
     map (\<lambda>i. if label_start \<le> int i \<and> int i < label_end then 1 else 0) [0..<n]"

definition process_seq_tag_sample :: "tokenizer \<Rightarrow> sample \<Rightarrow> py_error + seq_tag_processed option" where
  "process_seq_tag_sample T smp =
     (case sent_bounds smp of
        None \<Rightarrow> Inl KeyError
      | Some bs \<Rightarrow>
          if bs = [] then Inr None
          else (case get_tokens_range T smp of
                  Inl e \<Rightarrow> Inl e
                | Inr rng \<Rightarrow>
                    let processed = \<lparr>tag_id = s_id smp, tag_text = encode T (s_text smp),
                                     tag_sent_range = rng, tag_label = None\<rparr>
                    in (case extractive_summary smp of
                          None \<Rightarrow> Inr (Some processed)
                        | Some es \<Rightarrow>
                            (case py_index (tag_sent_range processed) es of
                               Inl e \<Rightarrow> Inl e
                             | Inr (label_start, label_end) \<Rightarrow>
                                 Inr (Some (processed\<lparr>tag_label :=
                                   Some (make_label label_start label_end
                                           (length (tag_text processed)))\<rparr>))))))"

fun seq_tag_loop ::
  "tokenizer \<Rightarrow> sample list \<Rightarrow> seq_tag_processed list \<Rightarrow> py_error + seq_tag_processed list"
where
  "seq_tag_loop T [] processeds = Inr processeds"
| "seq_tag_loop T (smp # rest) processeds =
     (case process_seq_tag_sample T smp of
        Inl e \<Rightarrow> Inl e
      | Inr None \<Rightarrow> seq_tag_loop T rest processeds
      | Inr (Some processed) \<Rightarrow> seq_tag_loop T rest (processeds @ [processed]))"

definition process_seq_tag_samples ::
  "tokenizer \<Rightarrow> sample list \<Rightarrow> py_error + seq_tag_processed list" where
  "process_seq_tag_samples T samples = seq_tag_loop T samples []"

subsection \<open>Sequence to sequence: \<^verbatim>\<open>process_seq2seq_samples\<close>\<close>

definition process_seq2seq_sample ::
  "tokenizer \<Rightarrow> int \<Rightarrow> int \<Rightarrow> sample \<Rightarrow> seq2seq_processed" where
  "process_seq2seq_sample T bos_idx eos_idx smp =
     (let processed = \<lparr>s2s_id = s_id smp, s2s_text = encode T (s_text smp) @ [eos_idx],
                       s2s_summary = None\<rparr>
      in (case summary smp of
            None \<Rightarrow> processed
          | Some sm \<Rightarrow>
              processed\<lparr>s2s_summary := Some ([bos_idx] @ encode T sm @ [eos_idx])\<rparr>))"

fun seq2seq_loop ::
  "tokenizer \<Rightarrow> int \<Rightarrow> int \<Rightarrow> sample list \<Rightarrow> seq2seq_processed list \<Rightarrow> seq2seq_processed list"
where
  "seq2seq_loop T bos_idx eos_idx [] processeds = processeds"
| "seq2seq_loop T bos_idx eos_idx (smp # rest) processeds =
     seq2seq_loop T bos_idx eos_idx rest
       (processeds @ [process_seq2seq_sample T bos_idx eos_idx smp])"

definition process_seq2seq_samples :: "tokenizer \<Rightarrow> sample list \<Rightarrow> seq2seq_processed list" where
  "process_seq2seq_samples T samples =
     (let bos_idx = bos_token_idx T; eos_idx = eos_token_idx T
      in seq2seq_loop T bos_idx eos_idx samples [])"

subsection \<open>Dataset assembly: \<^verbatim>\<open>create_seq_tag_dataset\<close>, \<^verbatim>\<open>create_seq2seq_dataset\<close>\<close>

text \<open>
  Modelled from the spec: the classes \<^verbatim>\<open>SeqTaggingDataset\<close> and \<^verbatim>\<open>Seq2SeqDataset\<close>
  are imported from \<^verbatim>\<open>dataset\<close>, which is not among the sources. By sections 3
  and 4.4 of the specification a container owns the list of processed records,
  the padding index and the length caps with which it was built.
\<close>

record seq_tag_dataset =
  tagds_data :: "seq_tag_processed list"
  tagds_padding :: int
  tagds_max_text_len :: nat

record seq2seq_dataset =
  s2sds_data :: "seq2seq_processed list"
  s2sds_padding :: int
  s2sds_max_text_len :: nat
  s2sds_max_summary_len :: nat

text \<open>
  Modelled from the spec: the truncation rule of section 4.4, which the missing
  classes apply. A token sequence is cut to the maximum length if it is longer
  and left as it is otherwise; the prefix is kept and the suffix dropped.
\<close>

definition truncate_to :: "nat \<Rightarrow> 'a list \<Rightarrow> 'a list" where
  "truncate_to max_len xs = (if max_len < length xs then take max_len xs else xs)"

text \<open>
  Modelled from the spec: the constructor of the missing class
  \<^verbatim>\<open>SeqTaggingDataset\<close>. Section 4.4 has it truncate the document token sequence
  of every record to \<open>max_text_len\<close> and keep the padding index and the cap; no
  padding is done at construction.
\<close>

definition SeqTaggingDataset :: "seq_tag_processed list \<Rightarrow> int \<Rightarrow> nat \<Rightarrow> seq_tag_dataset" where
  "SeqTaggingDataset samples padding max_text_len =
     \<lparr>tagds_data = map (\<lambda>p. p\<lparr>tag_text := truncate_to max_text_len (tag_text p)\<rparr>) samples,
      tagds_padding = padding,
      tagds_max_text_len = max_text_len\<rparr>"

text \<open>
  Modelled from the spec: the constructor of the missing class
  \<^verbatim>\<open>Seq2SeqDataset\<close>. Section 4.4 has it truncate the document token sequence to
  \<open>max_text_len\<close> and, by the same rule and independently, the summary tokens to
  \<open>max_summary_len\<close>.
\<close>

definition Seq2SeqDataset ::
  "seq2seq_processed list \<Rightarrow> int \<Rightarrow> nat \<Rightarrow> nat \<Rightarrow> seq2seq_dataset" where
  "Seq2SeqDataset samples padding max_text_len max_summary_len =
     \<lparr>s2sds_data =
        map (\<lambda>p. p\<lparr>s2s_text := truncate_to max_text_len (s2s_text p),
                    s2s_summary := map_option (truncate_to max_summary_len) (s2s_summary p)\<rparr>)
          samples,
      s2sds_padding = padding,
      s2sds_max_text_len = max_text_len,
      s2sds_max_summary_len = max_summary_len\<rparr>"

text \<open>
  Lines 115--121 and 145--152: the constructor calls with their literal caps.
  The value returned is the object that the code pickles to \<^verbatim>\<open>save_path\<close>.
\<close>

definition create_seq_tag_dataset :: "seq_tag_processed list \<Rightarrow> int \<Rightarrow> seq_tag_dataset" where
  "create_seq_tag_dataset samples padding = SeqTaggingDataset samples padding 300"

definition create_seq2seq_dataset :: "seq2seq_processed list \<Rightarrow> int \<Rightarrow> seq2seq_dataset" where
  "create_seq2seq_dataset samples padding = Seq2SeqDataset samples padding 300 80"

subsection \<open>Well-formed sentence bounds\<close>

text \<open>
  The character spans partition the text exactly: the first starts at 0, each
  next one starts where the previous one ended, and the last ends at the length
  of the text.
\<close>

fun chained :: "int \<Rightarrow> (int \<times> int) list \<Rightarrow> int \<Rightarrow> bool" where
  "chained a [] b = (a = b)"
| "chained a ((s, e) # bs) b = (s = a \<and> s \<le> e \<and> chained e bs b)"

definition partitions_text :: "string \<Rightarrow> (int \<times> int) list \<Rightarrow> bool" where
  "partitions_text txt bs = chained 0 bs (int (length txt))"

subsection \<open>Two concrete tokenizers\<close>

text \<open>
  A word tokenizer: words are separated by spaces, and a full stop is a token of
  its own. Its vocabulary is the one of the specification's scenario
  (\<open>encode ''A cat sat.'' = [4, 5, 6, 7]\<close>); any other token has the id 3.
\<close>

fun word_split :: "string \<Rightarrow> string \<Rightarrow> string list" where
  "word_split w [] = (if w = [] then [] else [w])"
| "word_split w (c # cs) =
     (if c = CHR '' '' then (if w = [] then [] else [w]) @ word_split [] cs
      else if c = CHR ''.'' then (if w = [] then [] else [w]) @ [''.''] @ word_split [] cs
      else word_split (w @ [c]) cs)"

definition word_id :: "string \<Rightarrow> int" where
  "word_id w =
     (case map_of [(''A'', 4), (''cat'', 5), (''sat'', 6), (''.'', 7), (''It'', 8), (''slept'', 9)] w of
        None \<Rightarrow> 3
      | Some i \<Rightarrow> i)"

definition word_tokenizer :: tokenizer where
  "word_tokenizer =
     \<lparr>tokenize = word_split [], encode = (\<lambda>s. map word_id (word_split [] s)),
      pad_token_idx = 0, bos_token_idx = 1, eos_token_idx = 2\<rparr>"

text \<open>A character tokenizer: every character is a token, its id the character code.\<close>

definition char_tokenizer :: tokenizer where
  "char_tokenizer =
     \<lparr>tokenize = map (\<lambda>c. [c]), encode = map (\<lambda>c. int (of_char c)),
      pad_token_idx = 0, bos_token_idx = 1, eos_token_idx = 2\<rparr>"

subsection \<open>Concrete records\<close>

text \<open>The record of the specification's scenario, and variants of it.\<close>

definition doc_d1 :: sample where
  "doc_d1 =
     \<lparr>s_id = ''d1'', s_text = ''A cat sat. It slept.'',
      sent_bounds = Some [(0, 10), (11, 20)],
      extractive_summary = Some 1, summary = Some ''It slept.''\<rparr>"

definition d1_tagged :: seq_tag_processed where
  "d1_tagged =
     \<lparr>tag_id = ''d1'', tag_text = [4, 5, 6, 7, 8, 9, 7],
      tag_sent_range = [(0, 4), (4, 7)], tag_label = Some [0, 0, 0, 0, 1, 1, 1]\<rparr>"

text \<open>The label index counts from the end.\<close>

definition doc_last :: sample where
  "doc_last = doc_d1\<lparr>extractive_summary := Some (- 1)\<rparr>"

text \<open>The label index is one past the last sentence.\<close>

definition doc_oob :: sample where
  "doc_oob = doc_d1\<lparr>extractive_summary := Some 2\<rparr>"

text \<open>An empty span between the two sentences.\<close>

definition doc_gap :: sample where
  "doc_gap = doc_d1\<lparr>sent_bounds := Some [(0, 10), (10, 10), (11, 20)]\<rparr>"

text \<open>Spans that are reversed, start before the text and end after it.\<close>

definition doc_wild :: sample where
  "doc_wild =
     \<lparr>s_id = ''d5'', s_text = ''A cat sat. It slept.'',
      sent_bounds = Some [(5, 2), (- 3, 100), (50, 60)],
      extractive_summary = None, summary = None\<rparr>"

text \<open>The two spans partition the text, and the cut falls inside the word \<open>It\<close>.\<close>

definition doc_midword :: sample where
  "doc_midword =
     \<lparr>s_id = ''d3'', s_text = ''A cat sat. It slept.'',
      sent_bounds = Some [(0, 12), (12, 20)],
      extractive_summary = Some 1, summary = None\<rparr>"

text \<open>One word, cut in the middle by spans that partition the text.\<close>

definition doc_cannot :: sample where
  "doc_cannot =
     \<lparr>s_id = ''d4'', s_text = ''cannot'', sent_bounds = Some [(0, 3), (3, 6)],
      extractive_summary = None, summary = None\<rparr>"

text \<open>A record without sentences.\<close>

definition doc_nobounds :: sample where
  "doc_nobounds =
     \<lparr>s_id = ''d2'', s_text = ''A cat sat.'', sent_bounds = Some [],
      extractive_summary = None, summary = None\<rparr>"

text \<open>Processed records of 301 tokens.\<close>

definition long_tagged :: seq_tag_processed where
  "long_tagged =
     \<lparr>tag_id = ''d6'', tag_text = replicate 301 7,
      tag_sent_range = [(0, 301)], tag_label = None\<rparr>"

definition long_pair :: seq2seq_processed where
  "long_pair = \<lparr>s2s_id = ''d6'', s2s_text = replicate 300 7 @ [2], s2s_summary = None\<rparr>"

section \<open>Auxiliary facts\<close>

subsection \<open>Slices and indices\<close>

lemma py_slice_same: "py_slice xs s s = []"
  by (simp add: py_slice_def)

lemma py_slice_substring:
  "\<exists>pre post. xs = pre @ py_slice xs s e @ post"
proof -
  define lo where "lo = slice_bound (length xs) s"
  define hi where "hi = slice_bound (length xs) e"
  have "drop lo xs = take (hi - lo) (drop lo xs) @ drop (hi - lo) (drop lo xs)"
    by (rule append_take_drop_id [symmetric])
  moreover have "xs = take lo xs @ drop lo xs"
    by (rule append_take_drop_id [symmetric])
  ultimately have "xs = take lo xs @ take (hi - lo) (drop lo xs) @ drop (hi - lo) (drop lo xs)"
    by metis
  then show ?thesis
    unfolding py_slice_def Let_def lo_def hi_def by blast
qed

lemma slice_bound_nonneg: "0 \<le> i \<Longrightarrow> slice_bound n i = min (nat i) n"
  by (simp add: slice_bound_def)

lemma py_slice_nonneg:
  "0 \<le> s \<Longrightarrow> s \<le> e \<Longrightarrow> e \<le> int (length xs) \<Longrightarrow>
   py_slice xs s e = take (nat e - nat s) (drop (nat s) xs)"
proof -
  assume a: "0 \<le> s" "s \<le> e" "e \<le> int (length xs)"
  then have "nat e \<le> length xs" and "nat s \<le> length xs" by simp_all
  then have "min (nat e) (length xs) = nat e" and "min (nat s) (length xs) = nat s"
    by simp_all
  with a show ?thesis
    by (simp add: py_slice_def slice_bound_nonneg Let_def)
qed

lemma py_slice_whole: "py_slice xs 0 (int (length xs)) = xs"
  by (simp add: py_slice_nonneg)

lemma py_slice_append:
  assumes "0 \<le> s" "s \<le> e" "e \<le> e'" "e' \<le> int (length xs)"
  shows "py_slice xs s e @ py_slice xs e e' = py_slice xs s e'"
proof -
  have "take (nat e' - nat s) (drop (nat s) xs)
          = take ((nat e - nat s) + (nat e' - nat e)) (drop (nat s) xs)"
    using assms by (simp add: nat_le_eq_zle)
  also have "\<dots> = take (nat e - nat s) (drop (nat s) xs)
                    @ take (nat e' - nat e) (drop (nat e - nat s) (drop (nat s) xs))"
    by (rule take_add)
  also have "drop (nat e - nat s) (drop (nat s) xs) = drop (nat e) xs"
    using assms by (simp add: nat_le_eq_zle)
  finally show ?thesis
    using assms by (simp add: py_slice_nonneg)
qed

lemma py_index_mem: "py_index xs i = Inr x \<Longrightarrow> x \<in> set xs"
  by (auto simp: py_index_def Let_def split: if_splits)

lemma py_index_fails_iff:
  "(py_index xs i = Inl IndexError) = (i < - int (length xs) \<or> int (length xs) \<le> i)"
  by (auto simp: py_index_def Let_def)

lemma py_index_cases:
  "py_index xs i = Inl IndexError \<or> (\<exists>x. py_index xs i = Inr x)"
  by (auto simp: py_index_def Let_def)

subsection \<open>The alignment loop\<close>

lemma tokens_range_loop_align:
  "tokens_range_loop T txt bs ranges off = ranges @ align_from T txt off bs"
  by (induction bs arbitrary: ranges off) (auto simp: span_tokens_def Let_def)

lemma length_align_from: "length (align_from T txt off bs) = length bs"
  by (induction bs arbitrary: off) auto

lemma align_from_nth:
  "i < length bs \<Longrightarrow>
   align_from T txt off bs ! i =
     (off + int (sum_list (map (span_tokens T txt) (take i bs))),
      off + int (sum_list (map (span_tokens T txt) (take i bs))) + int (span_tokens T txt (bs ! i)))"
proof (induction bs arbitrary: off i)
  case Nil
  then show ?case by simp
next
  case (Cons b bs)
  show ?case
  proof (cases i)
    case 0
    then show ?thesis by simp
  next
    case (Suc j)
    with Cons.prems have "j < length bs" by simp
    from Cons.IH [OF this, of "off + int (span_tokens T txt b)"] Suc
    show ?thesis by simp
  qed
qed

lemma get_tokens_range_align:
  "sent_bounds smp = Some bs \<Longrightarrow>
   get_tokens_range T smp = Inr (align_from T (s_text smp) 0 bs)"
  by (simp add: get_tokens_range_def tokens_range_loop_align)

lemma align_from_bounds:
  "0 \<le> off \<Longrightarrow> r \<in> set (align_from T txt off bs) \<Longrightarrow> 0 \<le> fst r \<and> fst r \<le> snd r"
proof (induction bs arbitrary: off)
  case Nil
  then show ?case by simp
next
  case (Cons b bs)
  from Cons.prems(2) consider "r = (off, off + int (span_tokens T txt b))"
    | "r \<in> set (align_from T txt (off + int (span_tokens T txt b)) bs)"
    by auto
  then show ?case
  proof cases
    case 1
    with Cons.prems(1) show ?thesis by simp
  next
    case 2
    have "0 \<le> off + int (span_tokens T txt b)" using Cons.prems(1) by simp
    from Cons.IH [OF this 2] show ?thesis .
  qed
qed

lemma last_align_from:
  "bs \<noteq> [] \<Longrightarrow>
   snd (last (align_from T txt k bs)) = k + int (sum_list (map (span_tokens T txt) bs))"
proof (induction bs arbitrary: k)
  case Nil
  then show ?case by simp
next
  case (Cons b bs)
  show ?case
  proof (cases "bs = []")
    case True
    then show ?thesis by simp
  next
    case False
    then have "align_from T txt (k + int (span_tokens T txt b)) bs \<noteq> []"
      by (cases bs) auto
    with Cons.IH [OF False, of "k + int (span_tokens T txt b)"] show ?thesis
      by simp
  qed
qed

lemma chained_le: "chained a bs b \<Longrightarrow> a \<le> b"
  by (induction a bs b rule: chained.induct) auto

lemma chained_concat:
  "chained a bs b \<Longrightarrow> 0 \<le> a \<Longrightarrow> b \<le> int (length txt) \<Longrightarrow>
   concat (map (\<lambda>c. py_slice txt (fst c) (snd c)) bs) = py_slice txt a b"
proof (induction a bs b rule: chained.induct)
  case (1 a b)
  then show ?case by (simp add: py_slice_same)
next
  case (2 a s e bs b)
  note prems = "2.prems" and IH = "2.IH"
  from prems(1) have ch: "chained e bs b" and se: "s = a" "s \<le> e" by simp_all
  from chained_le [OF ch] have eb: "e \<le> b" .
  from se prems(2) have "0 \<le> e" by simp
  from IH [OF ch this prems(3)]
  have "concat (map (\<lambda>c. py_slice txt (fst c) (snd c)) bs) = py_slice txt e b" .
  moreover have "py_slice txt a e @ py_slice txt e b = py_slice txt a b"
    using se eb prems by (intro py_slice_append) simp_all
  ultimately show ?case using se by simp
qed

lemma additive_empty:
  assumes "\<forall>a b. length (tokenize T (a @ b)) = length (tokenize T a) + length (tokenize T b)"
  shows "length (tokenize T []) = 0"
proof -
  from assms have "length (tokenize T ([] @ [])) = length (tokenize T []) + length (tokenize T [])"
    by blast
  then show ?thesis by simp
qed

lemma additive_concat:
  assumes "\<forall>a b. length (tokenize T (a @ b)) = length (tokenize T a) + length (tokenize T b)"
  shows "length (tokenize T (concat xss)) = sum_list (map (\<lambda>xs. length (tokenize T xs)) xss)"
proof (induction xss)
  case Nil
  show ?case using additive_empty [OF assms] by simp
next
  case (Cons xs xss)
  then show ?case using assms by simp
qed

subsection \<open>The tagging loop\<close>

lemma length_make_label: "length (make_label ls le n) = n"
  by (simp add: make_label_def)

lemma make_label_nth:
  "i < n \<Longrightarrow> make_label ls le n ! i = (if ls \<le> int i \<and> int i < le then 1 else 0)"
  by (simp add: make_label_def)

lemma sum_make_label:
  "0 \<le> ls \<Longrightarrow> ls \<le> le \<Longrightarrow>
   sum_list (make_label ls le n) = min le (int n) - min ls (int n)"
  by (induction n) (auto simp: make_label_def)

lemma tag_sample_unfold:
  assumes "sent_bounds smp = Some bs" "bs \<noteq> []"
  shows "process_seq_tag_sample T smp =
     (case extractive_summary smp of
        None \<Rightarrow> Inr (Some \<lparr>tag_id = s_id smp, tag_text = encode T (s_text smp),
                 tag_sent_range = align_from T (s_text smp) 0 bs, tag_label = None\<rparr>)
      | Some es \<Rightarrow>
          (case py_index (align_from T (s_text smp) 0 bs) es of
             Inl e \<Rightarrow> Inl e
           | Inr (ls, le) \<Rightarrow>
               Inr (Some \<lparr>tag_id = s_id smp, tag_text = encode T (s_text smp),
                 tag_sent_range = align_from T (s_text smp) 0 bs,
                 tag_label = Some (make_label ls le (length (encode T (s_text smp))))\<rparr>)))"
  using assms get_tokens_range_align [OF assms(1), of T]
  by (simp add: process_seq_tag_sample_def split: option.splits sum.splits prod.splits)

lemma tag_sample_skip:
  "process_seq_tag_sample T smp = Inr None \<Longrightarrow> sent_bounds smp = Some []"
  by (auto simp: process_seq_tag_sample_def get_tokens_range_def Let_def
           split: option.splits if_splits sum.splits prod.splits)

lemma tag_sample_keep:
  "process_seq_tag_sample T smp = Inr (Some p) \<Longrightarrow>
   sent_bounds smp \<noteq> Some [] \<and> tag_id p = s_id smp"
  by (auto simp: process_seq_tag_sample_def get_tokens_range_def Let_def
           split: option.splits if_splits sum.splits prod.splits)

lemma seq_tag_loop_fails:
  "smp \<in> set samples \<Longrightarrow> process_seq_tag_sample T smp = Inl e \<Longrightarrow>
   \<exists>e'. seq_tag_loop T samples acc = Inl e'"
proof (induction samples arbitrary: acc)
  case Nil
  then show ?case by simp
next
  case (Cons s rest)
  show ?case
  proof (cases "process_seq_tag_sample T s")
    case (Inl e0)
    then show ?thesis by simp
  next
    case (Inr r)
    with Cons.prems have "smp \<in> set rest" by auto
    from Cons.IH [OF this Cons.prems(2)] Inr show ?thesis
      by (cases r) simp_all
  qed
qed

lemma seq_tag_loop_ids:
  "seq_tag_loop T samples acc = Inr out \<Longrightarrow>
   map tag_id out =
     map tag_id acc @ map s_id (filter (\<lambda>s. sent_bounds s \<noteq> Some []) samples)"
proof (induction samples arbitrary: acc)
  case Nil
  then show ?case by simp
next
  case (Cons s rest)
  show ?case
  proof (cases "process_seq_tag_sample T s")
    case (Inl e)
    with Cons.prems show ?thesis by simp
  next
    case (Inr r)
    show ?thesis
    proof (cases r)
      case None
      with Inr Cons.prems have "seq_tag_loop T rest acc = Inr out" by simp
      from Cons.IH [OF this] tag_sample_skip [of T s] Inr None show ?thesis by simp
    next
      case (Some p)
      with Inr Cons.prems have "seq_tag_loop T rest (acc @ [p]) = Inr out" by simp
      from Cons.IH [OF this] tag_sample_keep [of T s p] Inr Some show ?thesis by simp
    qed
  qed
qed

subsection \<open>The sequence-to-sequence loop and the datasets\<close>

lemma seq2seq_loop_map:
  "seq2seq_loop T b e samples acc = acc @ map (process_seq2seq_sample T b e) samples"
  by (induction samples arbitrary: acc) auto

lemma process_seq2seq_samples_map:
  "process_seq2seq_samples T samples =
     map (process_seq2seq_sample T (bos_token_idx T) (eos_token_idx T)) samples"
  by (simp add: process_seq2seq_samples_def seq2seq_loop_map)

lemma s2s_id_sample: "s2s_id (process_seq2seq_sample T b e smp) = s_id smp"
  by (simp add: process_seq2seq_sample_def Let_def split: option.splits)

lemma s2s_text_sample: "s2s_text (process_seq2seq_sample T b e smp) = encode T (s_text smp) @ [e]"
  by (simp add: process_seq2seq_sample_def Let_def split: option.splits)

lemma s2s_summary_sample:
  "s2s_summary (process_seq2seq_sample T b e smp) =
     map_option (\<lambda>sm. b # encode T sm @ [e]) (summary smp)"
  by (simp add: process_seq2seq_sample_def Let_def split: option.splits)

lemma truncate_to_take: "truncate_to m xs = take m xs"
  by (simp add: truncate_to_def)

subsection \<open>The concrete records evaluated\<close>

lemma word_tokenize_empty: "tokenize word_tokenizer [] = []"
  by (simp add: word_tokenizer_def)

lemma char_tokenizer_additive:
  "\<forall>a b. length (tokenize char_tokenizer (a @ b))
           = length (tokenize char_tokenizer a) + length (tokenize char_tokenizer b)"
  by (simp add: char_tokenizer_def)

lemma char_tokenizer_encode:
  "\<forall>t. length (encode char_tokenizer t) = length (tokenize char_tokenizer t)"
  by (simp add: char_tokenizer_def)

lemma doc_d1_tagged: "process_seq_tag_sample word_tokenizer doc_d1 = Inr (Some d1_tagged)"
  by code_simp

lemma doc_oob_member: "doc_oob \<in> set [doc_d1, doc_oob]"
  by simp

section \<open>The claims\<close>

subsection \<open>C1\<close>

text \<open>
  C1. For every text and every list of character spans, \<^verbatim>\<open>get_tokens_range\<close>
  returns the list that the running-offset description gives: the offset starts
  at 0, and each character span \<open>(s, e)\<close>, in input order, contributes
  \<open>(offset, offset + k)\<close> with \<open>k\<close> the number of tokens of \<open>text[s:e]\<close> tokenized on
  its own, after which the offset advances by \<open>k\<close>. There is one token span per
  character span. No error is raised on an empty span, and the span it yields
  has length zero; this last part is for a tokenizer that finds no token in the
  empty string.
\<close>

theorem alignment_running_offset:
  assumes "sent_bounds smp = Some bs"
  shows "get_tokens_range T smp = Inr (align_from T (s_text smp) 0 bs)
         \<and> length (align_from T (s_text smp) 0 bs) = length bs
         \<and> (tokenize T [] = [] \<longrightarrow>
              (\<forall>i < length bs.
                 fst (bs ! i) = snd (bs ! i) \<or> py_slice (s_text smp) (fst (bs ! i)) (snd (bs ! i)) = []
                 \<longrightarrow> fst (align_from T (s_text smp) 0 bs ! i) = snd (align_from T (s_text smp) 0 bs ! i)))"
proof (intro conjI impI allI)
  show "get_tokens_range T smp = Inr (align_from T (s_text smp) 0 bs)"
    by (rule get_tokens_range_align [OF assms])
  show "length (align_from T (s_text smp) 0 bs) = length bs"
    by (rule length_align_from)
next
  fix i
  assume tok: "tokenize T [] = []" and i: "i < length bs"
    and "fst (bs ! i) = snd (bs ! i) \<or> py_slice (s_text smp) (fst (bs ! i)) (snd (bs ! i)) = []"
  then have "py_slice (s_text smp) (fst (bs ! i)) (snd (bs ! i)) = []"
    by (auto simp: py_slice_same)
  with tok have "span_tokens T (s_text smp) (bs ! i) = 0"
    by (simp add: span_tokens_def)
  with i show "fst (align_from T (s_text smp) 0 bs ! i) = snd (align_from T (s_text smp) 0 bs ! i)"
    by (simp add: align_from_nth)
qed

theorem alignment_running_offset_witness:
  "sent_bounds doc_gap = Some [(0, 10), (10, 10), (11, 20)]
   \<and> tokenize word_tokenizer [] = []
   \<and> get_tokens_range word_tokenizer doc_gap
       = Inr (align_from word_tokenizer (s_text doc_gap) 0 [(0, 10), (10, 10), (11, 20)])
   \<and> fst (align_from word_tokenizer (s_text doc_gap) 0 [(0, 10), (10, 10), (11, 20)] ! 1)
       = snd (align_from word_tokenizer (s_text doc_gap) 0 [(0, 10), (10, 10), (11, 20)] ! 1)"
proof -
  let ?bs = "[(0, 10), (10, 10), (11, 20)] :: (int \<times> int) list"
  have h: "sent_bounds doc_gap = Some ?bs"
    by (simp add: doc_gap_def)
  note inst = alignment_running_offset [OF h, of word_tokenizer]
  have i1: "1 < length ?bs" by simp
  have e1: "fst (?bs ! 1) = snd (?bs ! 1)" by simp
  from inst have run: "get_tokens_range word_tokenizer doc_gap
       = Inr (align_from word_tokenizer (s_text doc_gap) 0 ?bs)"
    by (rule conjunct1)
  from inst [THEN conjunct2, THEN conjunct2, THEN mp, OF word_tokenize_empty, rule_format,
      OF i1 disjI1, OF e1]
  have "fst (align_from word_tokenizer (s_text doc_gap) 0 ?bs ! 1)
       = snd (align_from word_tokenizer (s_text doc_gap) 0 ?bs ! 1)" .
  with h word_tokenize_empty run show ?thesis by (intro conjI)
qed

subsection \<open>C2\<close>

text \<open>
  C2, amended. For every record with non-empty \<open>sent_bounds\<close> and with
  \<open>extractive_summary\<close> present for which the builder produces a record, the
  label has the length of the encoded full text, and position \<open>i\<close> is 1 exactly
  when \<open>label_start \<le> i < label_end\<close> for
  \<open>(label_start, label_end) = sent_ranges[extractive_summary]\<close>, 0 otherwise. The
  sum of the label is the number of those positions that lie inside the encoded
  text, \<open>min label_end n - min label_start n\<close> for \<open>n\<close> the length of the encoded
  text; it is \<open>label_end - label_start\<close> when \<open>label_end \<le> n\<close>.
\<close>

theorem label_marks_summary_sentence:
  assumes "sent_bounds smp = Some bs" and "bs \<noteq> []"
    and "extractive_summary smp = Some es"
    and "process_seq_tag_sample T smp = Inr (Some p)"
  shows "\<exists>ls le lab.
           py_index (tag_sent_range p) es = Inr (ls, le) \<and> tag_label p = Some lab
           \<and> tag_text p = encode T (s_text smp)
           \<and> length lab = length (tag_text p)
           \<and> (\<forall>i < length lab. lab ! i = (if ls \<le> int i \<and> int i < le then 1 else 0))
           \<and> sum_list lab = min le (int (length (tag_text p))) - min ls (int (length (tag_text p)))
           \<and> (le \<le> int (length (tag_text p)) \<longrightarrow> sum_list lab = le - ls)"
proof -
  let ?r = "align_from T (s_text smp) 0 bs"
  let ?n = "length (encode T (s_text smp))"
  from assms(4) tag_sample_unfold [OF assms(1,2), of T] assms(3)
  obtain ls le where idx: "py_index ?r es = Inr (ls, le)"
    and p: "p = \<lparr>tag_id = s_id smp, tag_text = encode T (s_text smp),
                 tag_sent_range = ?r, tag_label = Some (make_label ls le ?n)\<rparr>"
    by (auto split: sum.splits prod.splits)
  from py_index_mem [OF idx] have "0 \<le> ls \<and> ls \<le> le"
    using align_from_bounds [of 0 "(ls, le)" T "s_text smp" bs] by simp
  then have sum: "sum_list (make_label ls le ?n) = min le (int ?n) - min ls (int ?n)"
    and le: "ls \<le> le"
    by (simp_all add: sum_make_label)
  have full: "le \<le> int ?n \<longrightarrow> sum_list (make_label ls le ?n) = le - ls"
    using sum le by auto
  have nth: "\<forall>i < length (make_label ls le ?n).
      make_label ls le ?n ! i = (if ls \<le> int i \<and> int i < le then 1 else 0)"
    by (simp add: length_make_label make_label_nth)
  show ?thesis
    using idx p sum full nth by (simp add: length_make_label)
qed

theorem label_marks_summary_sentence_witness:
  "sent_bounds doc_d1 = Some [(0, 10), (11, 20)] \<and> [(0, 10), (11, 20)] \<noteq> ([] :: (int \<times> int) list)
   \<and> extractive_summary doc_d1 = Some 1
   \<and> process_seq_tag_sample word_tokenizer doc_d1 = Inr (Some d1_tagged)
   \<and> (\<exists>ls le lab.
         py_index (tag_sent_range d1_tagged) 1 = Inr (ls, le) \<and> tag_label d1_tagged = Some lab
         \<and> length lab = length (tag_text d1_tagged)
         \<and> (\<forall>i < length lab. lab ! i = (if ls \<le> int i \<and> int i < le then 1 else 0))
         \<and> sum_list lab = le - ls)"
proof -
  have h1: "sent_bounds doc_d1 = Some [(0, 10), (11, 20)]"
    and h2: "[(0, 10), (11, 20)] \<noteq> ([] :: (int \<times> int) list)"
    and h3: "extractive_summary doc_d1 = Some 1"
    by (simp_all add: doc_d1_def)
  from label_marks_summary_sentence [OF h1 h2 h3 doc_d1_tagged]
  obtain ls le lab where
    idx: "py_index (tag_sent_range d1_tagged) 1 = Inr (ls, le)"
    and lab: "tag_label d1_tagged = Some lab"
    and len: "length lab = length (tag_text d1_tagged)"
    and nth: "\<forall>i < length lab. lab ! i = (if ls \<le> int i \<and> int i < le then 1 else 0)"
    and full: "le \<le> int (length (tag_text d1_tagged)) \<longrightarrow> sum_list lab = le - ls"
    by blast
  from idx have "le = 7"
    by (simp add: d1_tagged_def py_index_def)
  with full have "sum_list lab = le - ls"
    by (simp add: d1_tagged_def)
  with h1 h2 h3 doc_d1_tagged idx lab len nth show ?thesis by blast
qed

text \<open>
  C2 as stated fails on the sum. The spans of \<open>doc_midword\<close> partition its text,
  and the cut falls inside a word: the two substrings have 5 and 3 tokens, the
  whole text has 7. The label of the second sentence \<open>(5, 8)\<close> has the sum 2,
  not 3.
\<close>

theorem label_sum_counterexample:
  "sent_bounds doc_midword = Some [(0, 12), (12, 20)]
   \<and> extractive_summary doc_midword = Some 1
   \<and> process_seq_tag_sample word_tokenizer doc_midword =
        Inr (Some \<lparr>tag_id = ''d3'', tag_text = [4, 5, 6, 7, 8, 9, 7],
                   tag_sent_range = [(0, 5), (5, 8)],
                   tag_label = Some [0, 0, 0, 0, 0, 1, 1]\<rparr>)
   \<and> py_index [(0, 5), (5, 8)] 1 = Inr (5 :: int, 8 :: int)
   \<and> sum_list [0, 0, 0, 0, 0, 1, 1] \<noteq> (8 :: int) - 5"
  by code_simp

subsection \<open>C3\<close>

text \<open>
  C3. Whenever the tagging builder returns, its list is made of the records with
  non-empty \<open>sent_bounds\<close>, in input order, and of nothing else; the
  sequence-to-sequence list has one entry per input record, in input order. So
  a record with empty \<open>sent_bounds\<close> is dropped from the tagging list and kept in
  the sequence-to-sequence list: its id is present in the latter and, the ids
  identifying the records, absent from the former. No other condition drops a
  record: the id of every record with non-empty \<open>sent_bounds\<close> is in both lists.
\<close>

theorem drop_policy:
  assumes "process_seq_tag_samples T samples = Inr out"
  shows "map tag_id out = map s_id (filter (\<lambda>s. sent_bounds s \<noteq> Some []) samples)
         \<and> map s2s_id (process_seq2seq_samples T samples) = map s_id samples
         \<and> (\<forall>s \<in> set samples. sent_bounds s = Some [] \<longrightarrow>
              s_id s \<in> s2s_id ` set (process_seq2seq_samples T samples))
         \<and> (distinct (map s_id samples) \<longrightarrow>
              (\<forall>s \<in> set samples. sent_bounds s = Some [] \<longrightarrow> s_id s \<notin> tag_id ` set out))
         \<and> (\<forall>s \<in> set samples. sent_bounds s \<noteq> Some [] \<longrightarrow>
              s_id s \<in> tag_id ` set out
              \<and> s_id s \<in> s2s_id ` set (process_seq2seq_samples T samples))"
proof -
  have tag: "map tag_id out = map s_id (filter (\<lambda>s. sent_bounds s \<noteq> Some []) samples)"
    using seq_tag_loop_ids [of T samples "[]" out] assms
    by (simp add: process_seq_tag_samples_def)
  have s2s: "map s2s_id (process_seq2seq_samples T samples) = map s_id samples"
    by (simp add: process_seq2seq_samples_map s2s_id_sample)
  have "tag_id ` set out = set (map tag_id out)" by simp
  also have "\<dots> = s_id ` {s \<in> set samples. sent_bounds s \<noteq> Some []}"
    by (simp add: tag)
  finally have tagset: "tag_id ` set out = s_id ` {s \<in> set samples. sent_bounds s \<noteq> Some []}" .
  have "s2s_id ` set (process_seq2seq_samples T samples)
          = set (map s2s_id (process_seq2seq_samples T samples))" by simp
  also have "\<dots> = s_id ` set samples" by (simp add: s2s)
  finally have s2sset: "s2s_id ` set (process_seq2seq_samples T samples) = s_id ` set samples" .
  have kept: "\<forall>s \<in> set samples. s_id s \<in> s2s_id ` set (process_seq2seq_samples T samples)"
    unfolding s2sset by simp
  have present: "\<forall>s \<in> set samples. sent_bounds s \<noteq> Some [] \<longrightarrow> s_id s \<in> tag_id ` set out"
    unfolding tagset by simp
  have absent: "\<forall>s \<in> set samples. sent_bounds s = Some [] \<longrightarrow> s_id s \<notin> tag_id ` set out"
    if d: "distinct (map s_id samples)"
  proof (intro ballI impI notI)
    fix s assume s: "s \<in> set samples" and e: "sent_bounds s = Some []"
      and "s_id s \<in> tag_id ` set out"
    then obtain s' where s': "s' \<in> set samples" "sent_bounds s' \<noteq> Some []" "s_id s = s_id s'"
      unfolding tagset by auto
    from d have "inj_on s_id (set samples)" by (simp add: distinct_map)
    with s s' have "s = s'" by (auto dest: inj_onD)
    with e s' show False by simp
  qed
  from tag s2s kept present absent show ?thesis by blast
qed

theorem drop_policy_witness:
  "process_seq_tag_samples word_tokenizer [doc_d1, doc_nobounds] = Inr [d1_tagged]
   \<and> distinct (map s_id [doc_d1, doc_nobounds])
   \<and> doc_nobounds \<in> set [doc_d1, doc_nobounds] \<and> sent_bounds doc_nobounds = Some []
   \<and> doc_d1 \<in> set [doc_d1, doc_nobounds] \<and> sent_bounds doc_d1 \<noteq> Some []
   \<and> map tag_id [d1_tagged]
       = map s_id (filter (\<lambda>s. sent_bounds s \<noteq> Some []) [doc_d1, doc_nobounds])
   \<and> s_id doc_nobounds \<in> s2s_id ` set (process_seq2seq_samples word_tokenizer [doc_d1, doc_nobounds])
   \<and> s_id doc_nobounds \<notin> tag_id ` set [d1_tagged]
   \<and> s_id doc_d1 \<in> tag_id ` set [d1_tagged]"
proof -
  have h: "process_seq_tag_samples word_tokenizer [doc_d1, doc_nobounds] = Inr [d1_tagged]"
    by code_simp
  have d: "distinct (map s_id [doc_d1, doc_nobounds])"
    by (simp add: doc_d1_def doc_nobounds_def)
  have m0: "doc_nobounds \<in> set [doc_d1, doc_nobounds]"
    and m1: "doc_d1 \<in> set [doc_d1, doc_nobounds]"
    by simp_all
  have e: "sent_bounds doc_nobounds = Some []"
    by (simp add: doc_nobounds_def)
  have n: "sent_bounds doc_d1 \<noteq> Some []"
    by (simp add: doc_d1_def)
  note inst = drop_policy [OF h]
  from inst have ids: "map tag_id [d1_tagged]
       = map s_id (filter (\<lambda>s. sent_bounds s \<noteq> Some []) [doc_d1, doc_nobounds])"
    by (rule conjunct1)
  from inst m0 e
  have kept: "s_id doc_nobounds \<in> s2s_id ` set (process_seq2seq_samples word_tokenizer [doc_d1, doc_nobounds])"
    by blast
  from inst d m0 e have dropped: "s_id doc_nobounds \<notin> tag_id ` set [d1_tagged]"
    by blast
  from inst m1 n have present: "s_id doc_d1 \<in> tag_id ` set [d1_tagged]"
    by blast
  from h d m0 e m1 n ids kept dropped present show ?thesis by (intro conjI)
qed

subsection \<open>C4\<close>

text \<open>
  C4. The sequence-to-sequence builder returns one record per input record, in
  input order. In each, \<open>text\<close> is \<open>encode(text)\<close> followed by EOS, so that its
  last element is EOS. When the input record has a summary, \<open>summary\<close> is BOS,
  then \<open>encode(summary)\<close>, then EOS: the first element is BOS, the last is EOS
  and what lies between is \<open>encode(summary)\<close>. When it has none, the key
  \<open>summary\<close> is missing.
\<close>

theorem seq2seq_framing:
  "length (process_seq2seq_samples T samples) = length samples
   \<and> (\<forall>i < length samples.
        s2s_id (process_seq2seq_samples T samples ! i) = s_id (samples ! i)
        \<and> s2s_text (process_seq2seq_samples T samples ! i)
            = encode T (s_text (samples ! i)) @ [eos_token_idx T]
        \<and> last (s2s_text (process_seq2seq_samples T samples ! i)) = eos_token_idx T
        \<and> (case summary (samples ! i) of
             None \<Rightarrow> s2s_summary (process_seq2seq_samples T samples ! i) = None
           | Some sm \<Rightarrow>
               (\<exists>st. s2s_summary (process_seq2seq_samples T samples ! i) = Some st
                  \<and> st = [bos_token_idx T] @ encode T sm @ [eos_token_idx T]
                  \<and> hd st = bos_token_idx T \<and> last st = eos_token_idx T
                  \<and> butlast (tl st) = encode T sm)))"
  by (simp add: process_seq2seq_samples_map s2s_id_sample s2s_text_sample s2s_summary_sample
           split: option.splits)

theorem seq2seq_framing_witness:
  "length (process_seq2seq_samples word_tokenizer [doc_d1, doc_nobounds]) = 2
   \<and> s2s_text (process_seq2seq_samples word_tokenizer [doc_d1, doc_nobounds] ! 0)
       = encode word_tokenizer (s_text doc_d1) @ [eos_token_idx word_tokenizer]
   \<and> s2s_summary (process_seq2seq_samples word_tokenizer [doc_d1, doc_nobounds] ! 0)
       = Some ([bos_token_idx word_tokenizer] @ encode word_tokenizer ''It slept.''
               @ [eos_token_idx word_tokenizer])
   \<and> s2s_summary (process_seq2seq_samples word_tokenizer [doc_d1, doc_nobounds] ! 1) = None"
proof -
  note inst = seq2seq_framing [of word_tokenizer "[doc_d1, doc_nobounds]"]
  have s0: "summary ([doc_d1, doc_nobounds] ! 0) = Some ''It slept.''"
    and s1: "summary ([doc_d1, doc_nobounds] ! 1) = None"
    by (simp_all add: doc_d1_def doc_nobounds_def)
  from inst have len: "length (process_seq2seq_samples word_tokenizer [doc_d1, doc_nobounds]) = 2"
    by simp
  from inst have
    "s2s_text (process_seq2seq_samples word_tokenizer [doc_d1, doc_nobounds] ! 0)
       = encode word_tokenizer (s_text ([doc_d1, doc_nobounds] ! 0)) @ [eos_token_idx word_tokenizer]
     \<and> (case summary ([doc_d1, doc_nobounds] ! 0) of
          None \<Rightarrow> s2s_summary (process_seq2seq_samples word_tokenizer [doc_d1, doc_nobounds] ! 0) = None
        | Some sm \<Rightarrow>
            (\<exists>st. s2s_summary (process_seq2seq_samples word_tokenizer [doc_d1, doc_nobounds] ! 0) = Some st
               \<and> st = [bos_token_idx word_tokenizer] @ encode word_tokenizer sm @ [eos_token_idx word_tokenizer]
               \<and> hd st = bos_token_idx word_tokenizer \<and> last st = eos_token_idx word_tokenizer
               \<and> butlast (tl st) = encode word_tokenizer sm))"
    by (elim conjE allE [of _ 0]) simp
  with s0 have r0:
    "s2s_text (process_seq2seq_samples word_tokenizer [doc_d1, doc_nobounds] ! 0)
       = encode word_tokenizer (s_text doc_d1) @ [eos_token_idx word_tokenizer]"
    "s2s_summary (process_seq2seq_samples word_tokenizer [doc_d1, doc_nobounds] ! 0)
       = Some ([bos_token_idx word_tokenizer] @ encode word_tokenizer ''It slept.''
               @ [eos_token_idx word_tokenizer])"
    by simp_all
  from inst have
    "(case summary ([doc_d1, doc_nobounds] ! 1) of
          None \<Rightarrow> s2s_summary (process_seq2seq_samples word_tokenizer [doc_d1, doc_nobounds] ! 1) = None
        | Some sm \<Rightarrow>
            (\<exists>st. s2s_summary (process_seq2seq_samples word_tokenizer [doc_d1, doc_nobounds] ! 1) = Some st
               \<and> st = [bos_token_idx word_tokenizer] @ encode word_tokenizer sm @ [eos_token_idx word_tokenizer]
               \<and> hd st = bos_token_idx word_tokenizer \<and> last st = eos_token_idx word_tokenizer
               \<and> butlast (tl st) = encode word_tokenizer sm))"
    by (elim conjE allE [of _ 1]) simp
  with s1 have r1:
    "s2s_summary (process_seq2seq_samples word_tokenizer [doc_d1, doc_nobounds] ! 1) = None"
    by simp
  from len r0 r1 show ?thesis by blast
qed

subsection \<open>C5\<close>

text \<open>
  C5, amended. For every record with non-empty \<open>sent_bounds\<close> and with
  \<open>extractive_summary\<close> present, the tagging builder fails on the record exactly
  when \<open>extractive_summary\<close> is at least the number of sentence ranges or below
  minus that number; an index from minus that number up to \<open>-1\<close> counts from the
  end of the list and a record with a label is produced. When the builder fails
  on a record the error propagates: the run over any list that holds the record
  returns no list.
\<close>

theorem label_index_failure:
  assumes "sent_bounds smp = Some bs" and "bs \<noteq> []"
    and "extractive_summary smp = Some es"
  shows "((\<exists>e. process_seq_tag_sample T smp = Inl e)
            = (es < - int (length bs) \<or> int (length bs) \<le> es))
         \<and> ((\<exists>p. process_seq_tag_sample T smp = Inr (Some p))
            = (- int (length bs) \<le> es \<and> es < int (length bs)))
         \<and> (\<forall>samples. smp \<in> set samples
                \<and> (es < - int (length bs) \<or> int (length bs) \<le> es)
              \<longrightarrow> (\<exists>e. process_seq_tag_samples T samples = Inl e))"
proof -
  let ?r = "align_from T (s_text smp) 0 bs"
  have len: "length ?r = length bs" by (rule length_align_from)
  show ?thesis
  proof (cases "py_index ?r es")
    case (Inl e)
    with py_index_cases [of ?r es] have "py_index ?r es = Inl IndexError" by auto
    with py_index_fails_iff [of ?r es] len
    have "es < - int (length bs) \<or> int (length bs) \<le> es" by simp
    moreover have fail: "process_seq_tag_sample T smp = Inl e"
      using tag_sample_unfold [OF assms(1,2), of T] assms(3) Inl by simp
    moreover have "\<forall>samples. smp \<in> set samples
        \<longrightarrow> (\<exists>e. process_seq_tag_samples T samples = Inl e)"
      using seq_tag_loop_fails [OF _ fail] by (simp add: process_seq_tag_samples_def)
    ultimately show ?thesis by auto
  next
    case (Inr x)
    with py_index_fails_iff [of ?r es] len
    have "\<not> (es < - int (length bs) \<or> int (length bs) \<le> es)" by simp
    moreover have "\<exists>p. process_seq_tag_sample T smp = Inr (Some p)"
      using tag_sample_unfold [OF assms(1,2), of T] assms(3) Inr
      by (cases x) simp
    ultimately show ?thesis by auto
  qed
qed

theorem label_index_failure_witness:
  "sent_bounds doc_oob = Some [(0, 10), (11, 20)] \<and> [(0, 10), (11, 20)] \<noteq> ([] :: (int \<times> int) list)
   \<and> extractive_summary doc_oob = Some 2
   \<and> (\<exists>e. process_seq_tag_sample word_tokenizer doc_oob = Inl e)
   \<and> (\<exists>e. process_seq_tag_samples word_tokenizer [doc_d1, doc_oob] = Inl e)"
proof -
  have h1: "sent_bounds doc_oob = Some [(0, 10), (11, 20)]"
    and h2: "[(0, 10), (11, 20)] \<noteq> ([] :: (int \<times> int) list)"
    and h3: "extractive_summary doc_oob = Some 2"
    by (simp_all add: doc_oob_def doc_d1_def)
  note inst = label_index_failure [OF h1 h2 h3, of word_tokenizer]
  have range: "(2 :: int) < - int (length [(0, 10), (11, 20) :: int \<times> int])
                 \<or> int (length [(0, 10), (11, 20) :: int \<times> int]) \<le> 2"
    by simp
  from inst range have a: "\<exists>e. process_seq_tag_sample word_tokenizer doc_oob = Inl e"
    by blast
  from inst range doc_oob_member
  have b: "\<exists>e. process_seq_tag_samples word_tokenizer [doc_d1, doc_oob] = Inl e"
    by blast
  from h1 h2 h3 a b show ?thesis by blast
qed

text \<open>
  C5 as stated fails for a negative index. \<open>doc_last\<close> has two sentences and the
  index \<open>-1\<close>: the builder does not fail, it labels the last sentence.
\<close>

theorem label_index_counterexample:
  "sent_bounds doc_last = Some [(0, 10), (11, 20)]
   \<and> extractive_summary doc_last = Some (- 1) \<and> (- 1 :: int) < 0
   \<and> process_seq_tag_sample word_tokenizer doc_last = Inr (Some d1_tagged)
   \<and> process_seq_tag_samples word_tokenizer [doc_last] = Inr [d1_tagged]"
  by code_simp

subsection \<open>C6\<close>

text \<open>
  C6, amended. For every record with non-empty \<open>sent_bounds\<close> whose character
  spans partition the full text, the end of the last aligned span is the sum of
  the token counts of the spans, each tokenized on its own. It equals the token
  count of \<open>encode(text)\<close> when the tokenizer's token count is additive over
  concatenation (a string cut in two has as many tokens as its two parts
  together) and \<open>encode\<close> gives one id per token of \<open>tokenize\<close>.
\<close>

theorem alignment_coverage:
  assumes "sent_bounds smp = Some bs" and "bs \<noteq> []"
    and "partitions_text (s_text smp) bs"
  shows "\<exists>r. get_tokens_range T smp = Inr r
           \<and> snd (last r) = int (sum_list (map (span_tokens T (s_text smp)) bs))
           \<and> (\<forall>p. process_seq_tag_sample T smp = Inr (Some p) \<longrightarrow>
                 tag_sent_range p = r \<and> tag_text p = encode T (s_text smp))
           \<and> ((\<forall>a b. length (tokenize T (a @ b))
                        = length (tokenize T a) + length (tokenize T b))
                \<and> (\<forall>t. length (encode T t) = length (tokenize T t))
                \<longrightarrow> snd (last r) = int (length (encode T (s_text smp))))"
proof -
  let ?txt = "s_text smp"
  let ?r = "align_from T ?txt 0 bs"
  have r: "get_tokens_range T smp = Inr ?r"
    by (rule get_tokens_range_align [OF assms(1)])
  have total: "snd (last ?r) = int (sum_list (map (span_tokens T ?txt) bs))"
    using last_align_from [OF assms(2), of T ?txt 0] by simp
  have rec: "\<forall>p. process_seq_tag_sample T smp = Inr (Some p) \<longrightarrow>
                 tag_sent_range p = ?r \<and> tag_text p = encode T ?txt"
    using tag_sample_unfold [OF assms(1,2), of T]
    by (auto split: option.splits sum.splits prod.splits)
  have cover: "snd (last ?r) = int (length (encode T ?txt))"
    if add: "\<forall>a b. length (tokenize T (a @ b)) = length (tokenize T a) + length (tokenize T b)"
      and enc: "\<forall>t. length (encode T t) = length (tokenize T t)"
  proof -
    from assms(3) have "chained 0 bs (int (length ?txt))"
      by (simp add: partitions_text_def)
    then have "concat (map (\<lambda>c. py_slice ?txt (fst c) (snd c)) bs) = py_slice ?txt 0 (int (length ?txt))"
      by (rule chained_concat) simp_all
    then have "concat (map (\<lambda>c. py_slice ?txt (fst c) (snd c)) bs) = ?txt"
      by (simp add: py_slice_whole)
    then have "length (tokenize T ?txt)
        = length (tokenize T (concat (map (\<lambda>c. py_slice ?txt (fst c) (snd c)) bs)))"
      by simp
    also have "\<dots> = sum_list (map (span_tokens T ?txt) bs)"
      using additive_concat [OF add, of "map (\<lambda>c. py_slice ?txt (fst c) (snd c)) bs"]
      by (simp add: span_tokens_def [abs_def] comp_def)
    finally show ?thesis using total enc by simp
  qed
  from r total rec cover show ?thesis by blast
qed

theorem alignment_coverage_witness:
  "sent_bounds doc_cannot = Some [(0, 3), (3, 6)] \<and> [(0, 3), (3, 6)] \<noteq> ([] :: (int \<times> int) list)
   \<and> partitions_text (s_text doc_cannot) [(0, 3), (3, 6)]
   \<and> (\<forall>a b. length (tokenize char_tokenizer (a @ b))
               = length (tokenize char_tokenizer a) + length (tokenize char_tokenizer b))
   \<and> (\<forall>t. length (encode char_tokenizer t) = length (tokenize char_tokenizer t))
   \<and> (\<exists>r. get_tokens_range char_tokenizer doc_cannot = Inr r
         \<and> snd (last r) = int (length (encode char_tokenizer (s_text doc_cannot))))"
proof -
  have h1: "sent_bounds doc_cannot = Some [(0, 3), (3, 6)]"
    and h2: "[(0, 3), (3, 6)] \<noteq> ([] :: (int \<times> int) list)"
    and h3: "partitions_text (s_text doc_cannot) [(0, 3), (3, 6)]"
    by (simp_all add: doc_cannot_def partitions_text_def)
  from alignment_coverage [OF h1 h2 h3, of char_tokenizer]
    char_tokenizer_additive char_tokenizer_encode
  have "\<exists>r. get_tokens_range char_tokenizer doc_cannot = Inr r
         \<and> snd (last r) = int (length (encode char_tokenizer (s_text doc_cannot)))"
    by blast
  with h1 h2 h3 char_tokenizer_additive char_tokenizer_encode show ?thesis by blast
qed

text \<open>
  C6 as stated fails for a tokenizer that works on words. The two spans of
  \<open>doc_cannot\<close> partition its text; each half is one token, so the last span ends
  at 2, and the whole text is one token.
\<close>

theorem alignment_coverage_counterexample:
  "sent_bounds doc_cannot = Some [(0, 3), (3, 6)]
   \<and> partitions_text (s_text doc_cannot) [(0, 3), (3, 6)]
   \<and> process_seq_tag_sample word_tokenizer doc_cannot =
        Inr (Some \<lparr>tag_id = ''d4'', tag_text = [3], tag_sent_range = [(0, 1), (1, 2)],
                   tag_label = None\<rparr>)
   \<and> encode word_tokenizer (s_text doc_cannot) = [3]
   \<and> snd (last [(0, 1), (1, 2 :: int)]) \<noteq> int (length [3 :: int])"
  by code_simp

subsection \<open>C8\<close>

text \<open>
  C8. Both datasets are built with a maximum document length of 300 tokens, and
  the sequence-to-sequence dataset with a maximum summary length of 80. Each
  dataset holds one record per processed record, and for every record whose
  token sequence is longer than 300 the stored sequence is the first 300 tokens
  of it. The truncation is that of the dataset classes as the specification
  describes them.
\<close>

theorem truncation_boundary:
  "tagds_max_text_len (create_seq_tag_dataset tagged padding) = 300
   \<and> s2sds_max_text_len (create_seq2seq_dataset pairs padding) = 300
   \<and> s2sds_max_summary_len (create_seq2seq_dataset pairs padding) = 80
   \<and> length (tagds_data (create_seq_tag_dataset tagged padding)) = length tagged
   \<and> length (s2sds_data (create_seq2seq_dataset pairs padding)) = length pairs
   \<and> (\<forall>i < length tagged. 300 < length (tag_text (tagged ! i)) \<longrightarrow>
         tag_text (tagds_data (create_seq_tag_dataset tagged padding) ! i)
           = take 300 (tag_text (tagged ! i))
         \<and> length (tag_text (tagds_data (create_seq_tag_dataset tagged padding) ! i)) = 300)
   \<and> (\<forall>i < length pairs. 300 < length (s2s_text (pairs ! i)) \<longrightarrow>
         s2s_text (s2sds_data (create_seq2seq_dataset pairs padding) ! i)
           = take 300 (s2s_text (pairs ! i))
         \<and> length (s2s_text (s2sds_data (create_seq2seq_dataset pairs padding) ! i)) = 300)"
  by (simp add: create_seq_tag_dataset_def create_seq2seq_dataset_def SeqTaggingDataset_def
        Seq2SeqDataset_def truncate_to_take)

theorem truncation_boundary_witness:
  "(300 :: nat) < length (tag_text ([long_tagged] ! 0))
   \<and> (300 :: nat) < length (s2s_text ([long_pair] ! 0))
   \<and> tag_text (tagds_data (create_seq_tag_dataset [long_tagged] 0) ! 0) = replicate 300 7
   \<and> s2s_text (s2sds_data (create_seq2seq_dataset [long_pair] 0) ! 0) = replicate 300 7"
proof -
  have h1: "(300 :: nat) < length (tag_text ([long_tagged] ! 0))"
    and h2: "(300 :: nat) < length (s2s_text ([long_pair] ! 0))"
    by (simp_all add: long_tagged_def long_pair_def)
  note inst = truncation_boundary [of "[long_tagged]" 0 "[long_pair]"]
  from inst h1 have
    "tag_text (tagds_data (create_seq_tag_dataset [long_tagged] 0) ! 0)
       = take 300 (tag_text ([long_tagged] ! 0))"
    by simp
  then have a: "tag_text (tagds_data (create_seq_tag_dataset [long_tagged] 0) ! 0) = replicate 300 7"
    by (simp add: long_tagged_def)
  from inst h2 have
    "s2s_text (s2sds_data (create_seq2seq_dataset [long_pair] 0) ! 0)
       = take 300 (s2s_text ([long_pair] ! 0))"
    by simp
  then have b: "s2s_text (s2sds_data (create_seq2seq_dataset [long_pair] 0) ! 0) = replicate 300 7"
    by (simp add: long_pair_def)
  from h1 h2 a b show ?thesis by blast
qed

subsection \<open>C9\<close>

text \<open>
  C9. The list returned by \<^verbatim>\<open>get_tokens_range\<close> has one span per character span,
  in the same order: the \<open>i\<close>-th span has the length of the token count of the
  \<open>i\<close>-th character span. The first span starts at 0, every later span starts
  where the one before it ends, and every span has \<open>0 \<le> start \<le> end\<close>.
\<close>

theorem alignment_spans_contiguous:
  assumes "sent_bounds smp = Some bs"
  shows "\<exists>r. get_tokens_range T smp = Inr r \<and> length r = length bs
           \<and> (bs \<noteq> [] \<longrightarrow> fst (r ! 0) = 0)
           \<and> (\<forall>i. Suc i < length r \<longrightarrow> fst (r ! Suc i) = snd (r ! i))
           \<and> (\<forall>i < length r. 0 \<le> fst (r ! i) \<and> fst (r ! i) \<le> snd (r ! i)
                 \<and> snd (r ! i) - fst (r ! i) = int (span_tokens T (s_text smp) (bs ! i)))"
proof -
  let ?r = "align_from T (s_text smp) 0 bs"
  have len: "length ?r = length bs" by (rule length_align_from)
  have first: "bs \<noteq> [] \<longrightarrow> fst (?r ! 0) = 0"
    by (cases bs) auto
  have contig: "\<forall>i. Suc i < length ?r \<longrightarrow> fst (?r ! Suc i) = snd (?r ! i)"
  proof (intro allI impI)
    fix i assume "Suc i < length ?r"
    then have i: "Suc i < length bs" by (simp add: len)
    then have "take (Suc i) bs = take i bs @ [bs ! i]"
      by (simp add: take_Suc_conv_app_nth)
    with i show "fst (?r ! Suc i) = snd (?r ! i)"
      by (simp add: align_from_nth)
  qed
  have each: "\<forall>i < length ?r. 0 \<le> fst (?r ! i) \<and> fst (?r ! i) \<le> snd (?r ! i)
                 \<and> snd (?r ! i) - fst (?r ! i) = int (span_tokens T (s_text smp) (bs ! i))"
    by (simp add: len align_from_nth)
  from get_tokens_range_align [OF assms] len first contig each show ?thesis
    by blast
qed

theorem alignment_spans_contiguous_witness:
  "sent_bounds doc_d1 = Some [(0, 10), (11, 20)]
   \<and> (\<exists>r. get_tokens_range word_tokenizer doc_d1 = Inr r \<and> length r = 2
         \<and> fst (r ! 0) = 0 \<and> fst (r ! Suc 0) = snd (r ! 0)
         \<and> 0 \<le> fst (r ! Suc 0) \<and> fst (r ! Suc 0) \<le> snd (r ! Suc 0))"
proof -
  have h: "sent_bounds doc_d1 = Some [(0, 10), (11, 20)]"
    by (simp add: doc_d1_def)
  from alignment_spans_contiguous [OF h, of word_tokenizer]
  obtain r where r: "get_tokens_range word_tokenizer doc_d1 = Inr r"
    and len: "length r = length [(0, 10), (11, 20) :: int \<times> int]"
    and first: "[(0, 10), (11, 20) :: int \<times> int] \<noteq> [] \<longrightarrow> fst (r ! 0) = 0"
    and contig: "\<forall>i. Suc i < length r \<longrightarrow> fst (r ! Suc i) = snd (r ! i)"
    and each: "\<forall>i < length r. 0 \<le> fst (r ! i) \<and> fst (r ! i) \<le> snd (r ! i)
                 \<and> snd (r ! i) - fst (r ! i)
                     = int (span_tokens word_tokenizer (s_text doc_d1) ([(0, 10), (11, 20)] ! i))"
    by blast
  from len have len2: "length r = 2" by simp
  from first have f0: "fst (r ! 0) = 0" by simp
  from contig len2 have c: "fst (r ! Suc 0) = snd (r ! 0)" by simp
  from each len2 have e: "0 \<le> fst (r ! Suc 0) \<and> fst (r ! Suc 0) \<le> snd (r ! Suc 0)" by simp
  from h r len2 f0 c e show ?thesis by blast
qed

subsection \<open>C10\<close>

text \<open>
  C10. \<^verbatim>\<open>get_tokens_range\<close> does not fail on any list of character spans, and
  returns one token span per entry: whatever the two offsets of a span are (out
  of range, reversed, overlapping, out of order), \<open>text[s:e]\<close> is a contiguous
  part of the text, possibly empty. A record with non-empty \<open>sent_bounds\<close> and
  without \<open>extractive_summary\<close> is therefore always processed.
\<close>

theorem alignment_total:
  assumes "sent_bounds smp = Some bs"
  shows "(\<exists>r. get_tokens_range T smp = Inr r \<and> length r = length bs)
         \<and> (\<forall>b \<in> set bs. \<exists>pre post.
               s_text smp = pre @ py_slice (s_text smp) (fst b) (snd b) @ post)
         \<and> (bs \<noteq> [] \<and> extractive_summary smp = None \<longrightarrow>
              (\<exists>p. process_seq_tag_sample T smp = Inr (Some p) \<and> length (tag_sent_range p) = length bs))"
proof (intro conjI)
  show "\<exists>r. get_tokens_range T smp = Inr r \<and> length r = length bs"
    using get_tokens_range_align [OF assms, of T] by (simp add: length_align_from)
  show "\<forall>b \<in> set bs. \<exists>pre post. s_text smp = pre @ py_slice (s_text smp) (fst b) (snd b) @ post"
    using py_slice_substring by blast
  show "bs \<noteq> [] \<and> extractive_summary smp = None \<longrightarrow>
              (\<exists>p. process_seq_tag_sample T smp = Inr (Some p) \<and> length (tag_sent_range p) = length bs)"
    using assms get_tokens_range_align [OF assms, of T]
    by (simp add: process_seq_tag_sample_def length_align_from)
qed

theorem alignment_total_witness:
  "sent_bounds doc_wild = Some [(5, 2), (- 3, 100), (50, 60)]
   \<and> extractive_summary doc_wild = None
   \<and> (\<exists>r. get_tokens_range word_tokenizer doc_wild = Inr r \<and> length r = 3)
   \<and> (\<exists>p. process_seq_tag_sample word_tokenizer doc_wild = Inr (Some p)
         \<and> length (tag_sent_range p) = 3)"
proof -
  have h: "sent_bounds doc_wild = Some [(5, 2), (- 3, 100), (50, 60)]"
    and n: "extractive_summary doc_wild = None"
    by (simp_all add: doc_wild_def)
  note inst = alignment_total [OF h, of word_tokenizer]
  from inst have a: "\<exists>r. get_tokens_range word_tokenizer doc_wild = Inr r \<and> length r = 3"
    by (simp add: numeral_3_eq_3)
  from inst n have b: "\<exists>p. process_seq_tag_sample word_tokenizer doc_wild = Inr (Some p)
         \<and> length (tag_sent_range p) = 3"
    by (simp add: numeral_3_eq_3)
  from h n a b show ?thesis by blast
qed

end
